theory Spec2Isabelle
  imports Main "HOL-Library.Signed_Division"
begin

section \<open>The Go string functions used by the package\<close>

text \<open>
  A Go string is a sequence of bytes; \<^typ>\<open>string\<close> is a list of \<^typ>\<open>char\<close>, one per
  byte. The functions of package \<^verbatim>\<open>strings\<close> below search and cut bytewise, as Go does
  for a separator that is not empty.
\<close>

fun HasPrefix :: "string \<Rightarrow> string \<Rightarrow> bool" where
  "HasPrefix s [] = True"
| "HasPrefix [] (p # ps) = False"
| "HasPrefix (c # s) (p # ps) = (c = p \<and> HasPrefix s ps)"

text \<open>\<^verbatim>\<open>strings.Index\<close>: the offset of the first occurrence, \<open>None\<close> for Go's \<open>-1\<close>.\<close>

fun Index :: "string \<Rightarrow> string \<Rightarrow> nat option" where
  "Index [] sub = (if sub = [] then Some 0 else None)"
| "Index (c # s) sub =
     (if HasPrefix (c # s) sub then Some 0 else map_option Suc (Index s sub))"

definition Contains :: "string \<Rightarrow> string \<Rightarrow> bool" where
  "Contains s sub = (Index s sub \<noteq> None)"

text \<open>
  \<^verbatim>\<open>strings.Split(s, sep)\<close>. Every call of the package passes a one-byte separator.
  For an empty separator Go cuts after each UTF-8 sequence; the model cuts after each
  byte there, which is the same on ASCII text.
\<close>

function Split :: "string \<Rightarrow> string \<Rightarrow> string list" where
  "Split s sep =
     (if sep = [] then map (\<lambda>c. [c]) s
      else case Index s sep of
             None \<Rightarrow> [s]
           | Some i \<Rightarrow> take i s # Split (drop (i + length sep) s) sep)"
  by pat_completeness auto
termination
proof (relation "measure (\<lambda>(s, sep). length s)")
  show "wf (measure (\<lambda>(s, sep). length s))" by simp
next
  fix s sep :: string and i :: nat
  assume "sep \<noteq> []" and "Index s sep = Some i"
  have "j \<le> length t" if "Index t sep = Some j" for t j
    using that by (induction t arbitrary: j) (auto split: if_splits)
  with \<open>sep \<noteq> []\<close> \<open>Index s sep = Some i\<close> have "i \<le> length s" and "0 < length sep"
    by auto
  moreover have "s \<noteq> []"
    using \<open>sep \<noteq> []\<close> \<open>Index s sep = Some i\<close> by (cases s) auto
  ultimately show "((drop (i + length sep) s, sep), (s, sep)) \<in> measure (\<lambda>(s, sep). length s)"
    by simp
qed

declare Split.simps [simp del]

text \<open>
  \<^verbatim>\<open>strings.ReplaceAll(s, old, new)\<close>: the occurrences of \<open>old\<close> are found from left to
  right and do not overlap. Go returns \<open>s\<close> itself when \<open>old = new\<close>. Every call of the
  package passes an \<open>old\<close> that is not empty; for an empty \<open>old\<close> Go puts \<open>new\<close> in front of
  every UTF-8 sequence and at the end, and the model does so for every byte.
\<close>

function ReplaceAll :: "string \<Rightarrow> string \<Rightarrow> string \<Rightarrow> string" where
  "ReplaceAll s old new =
     (if old = new then s
      else if old = [] then concat (map (\<lambda>c. new @ [c]) s) @ new
      else case Index s old of
             None \<Rightarrow> s
           | Some i \<Rightarrow> take i s @ new @ ReplaceAll (drop (i + length old) s) old new)"
  by pat_completeness auto
termination
proof (relation "measure (\<lambda>(s, old, new). length s)")
  show "wf (measure (\<lambda>(s, old, new). length s))" by simp
next
  fix s old new :: string and i :: nat
  assume "old \<noteq> []" and "Index s old = Some i"
  have "j \<le> length t" if "Index t old = Some j" for t j
    using that by (induction t arbitrary: j) (auto split: if_splits)
  with \<open>old \<noteq> []\<close> \<open>Index s old = Some i\<close> have "i \<le> length s" and "0 < length old"
    by auto
  moreover have "s \<noteq> []"
    using \<open>old \<noteq> []\<close> \<open>Index s old = Some i\<close> by (cases s) auto
  ultimately show "((drop (i + length old) s, old, new), (s, old, new))
      \<in> measure (\<lambda>(s, old, new). length s)"
    by simp
qed

declare ReplaceAll.simps [simp del]

text \<open>
  \<^verbatim>\<open>strings.TrimLeft(s, cutset)\<close> for a cutset of ASCII characters (the package passes
  \<^verbatim>\<open>"/"\<close>): the leading bytes that occur in the cutset are dropped.
\<close>

definition TrimLeft :: "string \<Rightarrow> string \<Rightarrow> string" where
  "TrimLeft s cutset = dropWhile (\<lambda>c. c \<in> set cutset) s"

section \<open>Registry paths\<close>

text \<open>
  \<^verbatim>\<open>type RegistryPath string\<close>. The source indexes the result of \<^verbatim>\<open>strings.Split\<close>
  with a constant; an index out of range panics in Go, so the index is modelled with a
  result that says so.
\<close>

type_synonym RegistryPath = string

datatype 'a outcome = Panic | Return 'a

definition index_at :: "'a list \<Rightarrow> nat \<Rightarrow> 'a outcome" where
  "index_at xs i = (if i < length xs then Return (xs ! i) else Panic)"

definition Digest :: "RegistryPath \<Rightarrow> string outcome" where
  "Digest r =
     (if \<not> Contains r ''@'' then Return ''''
      else let digestTokens = Split r ''@'' in index_at digestTokens 1)"

definition Tag :: "RegistryPath \<Rightarrow> string outcome" where
  "Tag r =
     (if Contains r ''@'' \<or> \<not> Contains r '':'' then Return ''''
      else let tagTokens = Split r '':'' in index_at tagTokens 1)"

text \<open>
  \<^verbatim>\<open>Host\<close> looks for the dot in the whole string, once the occurrences of the tag are
  taken out, and returns the first token of the string as it was given.
\<close>

definition Host :: "RegistryPath \<Rightarrow> string outcome" where
  "Host r =
     (case Tag r of
        Panic \<Rightarrow> Panic
      | Return tag \<Rightarrow>
          let host = (if tag \<noteq> '''' then ReplaceAll r ('':'' @ tag) '''' else r)
          in if \<not> Contains host ''.'' then Return ''''
             else let hostTokens = Split r ''/'' in index_at hostTokens 0)"

definition Repository :: "RegistryPath \<Rightarrow> string outcome" where
  "Repository r =
     (case Tag r of
        Panic \<Rightarrow> Panic
      | Return tag \<Rightarrow>
          let repository = (if tag \<noteq> '''' then ReplaceAll r ('':'' @ tag) '''' else r)
          in case Digest r of
               Panic \<Rightarrow> Panic
             | Return digest \<Rightarrow>
                 let repository =
                       (if digest \<noteq> '''' then ReplaceAll repository (''@'' @ digest) ''''
                        else repository)
                 in case Host r of
                      Panic \<Rightarrow> Panic
                    | Return host \<Rightarrow>
                        let repository =
                              (if host \<noteq> '''' then ReplaceAll repository host ''''
                               else repository)
                        in Return (TrimLeft repository ''/''))"

section \<open>Status lines\<close>

text \<open>\<^verbatim>\<open>%v\<close> of a Go \<^verbatim>\<open>int\<close>: the decimal digits, with a minus sign when negative.\<close>

definition digit :: "nat \<Rightarrow> char" where
  "digit d = ''0123456789'' ! d"

function decimal :: "nat \<Rightarrow> string" where
  "decimal n = (if n < 10 then [digit n] else decimal (n div 10) @ [digit (n mod 10)])"
  by pat_completeness auto
termination
  by (relation "measure (\<lambda>n. n)") auto

declare decimal.simps [simp del]

definition Sprint :: "int \<Rightarrow> string" where
  "Sprint i = (if i < 0 then ''-'' @ decimal (nat (- i)) else decimal (nat i))"

record ProgressDetail =
  Current :: int
  Total :: int

record Status =
  Message :: string
  ID :: string
  ProgressDetail :: ProgressDetail

definition GetMessage :: "Status \<Rightarrow> string" where
  "GetMessage s =
     (if Contains (Message s) ''Pulling from'' \<or> Contains (Message s) ''The push refers to''
      then ''Started''
      else if Total (ProgressDetail s) > 0
      then ''Processing '' @ Sprint (Current (ProgressDetail s)) @ ''B of ''
             @ Sprint (Total (ProgressDetail s)) @ ''B''
      else ''Processing'')"

section \<open>Decoding a line with \<^verbatim>\<open>json.Unmarshal\<close>\<close>

text \<open>
  \<^verbatim>\<open>json.Unmarshal\<close> first checks the syntax of the whole input and touches nothing when
  the check fails. A line of the stream is therefore given by what that check makes of its
  bytes: the message of the syntax error, or the JSON value that was written. A number
  literal is \<open>JInt\<close> when it has neither fraction nor exponent, and \<open>JFloat\<close> (holding the
  literal) otherwise; the members of an object are kept in the order of the text.
\<close>

datatype json =
    JNull
  | JBool bool
  | JInt int
  | JFloat string
  | JString string
  | JArray "json list"
  | JObject "(string \<times> json) list"

datatype line = Malformed string | Wellformed json

datatype go_error =
    SyntaxError string
  | UnmarshalTypeError string string
  | ReadError string
  | Errorf string
  | Wrapf string go_error

text \<open>
  \<open>SyntaxError msg\<close> and \<open>UnmarshalTypeError value type\<close> are the two errors of
  \<^verbatim>\<open>encoding/json\<close> that can occur here, \<open>ReadError\<close> is what the scanner's \<^verbatim>\<open>Err()\<close>
  gives, \<open>Errorf msg\<close> is \<^verbatim>\<open>fmt.Errorf\<close> without \<^verbatim>\<open>%w\<close> (an error whose text is
  \<open>msg\<close>), and \<open>Wrapf context e\<close> is \<^verbatim>\<open>fmt.Errorf(context + "%w", e)\<close>.
\<close>

fun json_kind :: "json \<Rightarrow> string" where
  "json_kind JNull = ''null''"
| "json_kind (JBool b) = ''bool''"
| "json_kind (JInt n) = ''number''"
| "json_kind (JFloat l) = ''number''"
| "json_kind (JString t) = ''string''"
| "json_kind (JArray xs) = ''array''"
| "json_kind (JObject ms) = ''object''"

text \<open>
  A key of an object selects the struct field whose \<^verbatim>\<open>json\<close> name it equals, and failing
  that the field whose name it equals under Unicode simple case folding. The names of this
  package are ASCII; the runes that fold to an ASCII letter are the letter in its other
  case, U+017F (for s) and U+212A (for k). With one field per folded name the exact match
  and the folded match select the same field.
\<close>

definition upper :: "char \<Rightarrow> char" where
  "upper c =
     (case map_of (zip ''abcdefghijklmnopqrstuvwxyz'' ''ABCDEFGHIJKLMNOPQRSTUVWXYZ'') c of
        None \<Rightarrow> c
      | Some u \<Rightarrow> u)"

fun foldName :: "string \<Rightarrow> string" where
  "foldName [] = []"
| "foldName (c # cs) =
     (if c = CHR 0xC5 \<and> HasPrefix cs [CHR 0xBF] then CHR ''S'' # foldName (drop 1 cs)
      else if c = CHR 0xE2 \<and> HasPrefix cs [CHR 0x84, CHR 0xAA] then CHR ''K'' # foldName (drop 2 cs)
      else upper c # foldName cs)"

definition names :: "string \<Rightarrow> string \<Rightarrow> bool" where
  "names key field = (foldName key = foldName field)"

text \<open>
  Storing a JSON value in a field of type \<^verbatim>\<open>string\<close> or \<^verbatim>\<open>int\<close> (64 bits): \<^verbatim>\<open>null\<close>
  leaves the field as it is, a value of the wrong kind and an integer out of range are an
  \<^verbatim>\<open>UnmarshalTypeError\<close>.
\<close>

fun store_string :: "json \<Rightarrow> string \<Rightarrow> go_error + string" where
  "store_string JNull old = Inr old"
| "store_string (JString t) old = Inr t"
| "store_string v old = Inl (UnmarshalTypeError (json_kind v) ''string'')"

fun store_int :: "json \<Rightarrow> int \<Rightarrow> go_error + int" where
  "store_int JNull old = Inr old"
| "store_int (JInt n) old =
     (if - (2 ^ 63) \<le> n \<and> n < 2 ^ 63 then Inr n
      else Inl (UnmarshalTypeError (''number '' @ Sprint n) ''int''))"
| "store_int (JFloat l) old = Inl (UnmarshalTypeError (''number '' @ l) ''int'')"
| "store_int v old = Inl (UnmarshalTypeError (json_kind v) ''int'')"

text \<open>
  An object is decoded into the struct that is already there: its members are taken in
  order, a member that names no field is skipped, and a field that no member names keeps
  the value it had. The decoder reports the first error it met.
\<close>

fun members_ProgressDetail ::
  "(string \<times> json) list \<Rightarrow> ProgressDetail \<Rightarrow> go_error + ProgressDetail" where
  "members_ProgressDetail [] p = Inr p"
| "members_ProgressDetail ((key, v) # ms) p =
     (if names key ''current'' then
        (case store_int v (Current p) of
           Inl e \<Rightarrow> Inl e
         | Inr n \<Rightarrow> members_ProgressDetail ms (p\<lparr>Current := n\<rparr>))
      else if names key ''total'' then
        (case store_int v (Total p) of
           Inl e \<Rightarrow> Inl e
         | Inr n \<Rightarrow> members_ProgressDetail ms (p\<lparr>Total := n\<rparr>))
      else members_ProgressDetail ms p)"

fun store_ProgressDetail :: "json \<Rightarrow> ProgressDetail \<Rightarrow> go_error + ProgressDetail" where
  "store_ProgressDetail JNull old = Inr old"
| "store_ProgressDetail (JObject ms) old = members_ProgressDetail ms old"
| "store_ProgressDetail v old = Inl (UnmarshalTypeError (json_kind v) ''docker.ProgressDetail'')"

fun members_Status :: "(string \<times> json) list \<Rightarrow> Status \<Rightarrow> go_error + Status" where
  "members_Status [] s = Inr s"
| "members_Status ((key, v) # ms) s =
     (if names key ''status'' then
        (case store_string v (Message s) of
           Inl e \<Rightarrow> Inl e
         | Inr t \<Rightarrow> members_Status ms (s\<lparr>Message := t\<rparr>))
      else if names key ''id'' then
        (case store_string v (ID s) of
           Inl e \<Rightarrow> Inl e
         | Inr t \<Rightarrow> members_Status ms (s\<lparr>ID := t\<rparr>))
      else if names key ''progressDetail'' then
        (case store_ProgressDetail v (ProgressDetail s) of
           Inl e \<Rightarrow> Inl e
         | Inr p \<Rightarrow> members_Status ms (s\<lparr>ProgressDetail := p\<rparr>))
      else members_Status ms s)"

text \<open>\<^verbatim>\<open>json.Unmarshal(bytes, &status)\<close>: the struct after the call, or the error.\<close>

fun Unmarshal_Status :: "line \<Rightarrow> Status \<Rightarrow> go_error + Status" where
  "Unmarshal_Status (Malformed msg) s = Inl (SyntaxError msg)"
| "Unmarshal_Status (Wellformed JNull) s = Inr s"
| "Unmarshal_Status (Wellformed (JObject ms)) s = members_Status ms s"
| "Unmarshal_Status (Wellformed v) s = Inl (UnmarshalTypeError (json_kind v) ''docker.Status'')"

record clientErrorMessage =
  Error :: string

fun members_clientErrorMessage ::
  "(string \<times> json) list \<Rightarrow> clientErrorMessage \<Rightarrow> go_error + clientErrorMessage" where
  "members_clientErrorMessage [] m = Inr m"
| "members_clientErrorMessage ((key, v) # ms) m =
     (if names key ''error'' then
        (case store_string v (Error m) of
           Inl e \<Rightarrow> Inl e
         | Inr t \<Rightarrow> members_clientErrorMessage ms (m\<lparr>Error := t\<rparr>))
      else members_clientErrorMessage ms m)"

fun Unmarshal_clientErrorMessage ::
  "line \<Rightarrow> clientErrorMessage \<Rightarrow> go_error + clientErrorMessage" where
  "Unmarshal_clientErrorMessage (Malformed msg) m = Inl (SyntaxError msg)"
| "Unmarshal_clientErrorMessage (Wellformed JNull) m = Inr m"
| "Unmarshal_clientErrorMessage (Wellformed (JObject ms)) m = members_clientErrorMessage ms m"
| "Unmarshal_clientErrorMessage (Wellformed v) m =
     Inl (UnmarshalTypeError (json_kind v) ''docker.clientErrorMessage'')"

section \<open>The stream consumer\<close>

text \<open>
  The logger is the list of the messages handed to \<^verbatim>\<open>Printf\<close>, oldest first. A
  \<^verbatim>\<open>bufio.Scanner\<close> is the lines it has yet to give and the way its input ends: \<^verbatim>\<open>Scan()\<close>
  takes the first pending line; with none left it returns false, and \<^verbatim>\<open>Err()\<close> is then
  \<open>failure\<close> (\<open>None\<close> at a clean end of input).
\<close>

type_synonym Logger = "string list"

record Scanner =
  pending :: "line list"
  failure :: "go_error option"

text \<open>The two formats: \<^verbatim>\<open>"[%s] %s (%s)"\<close> and \<^verbatim>\<open>"[%s] %s complete."\<close>.\<close>

definition progress_entry :: "string \<Rightarrow> string \<Rightarrow> string \<Rightarrow> string" where
  "progress_entry command img msg = ''['' @ command @ ''] '' @ img @ '' ('' @ msg @ '')''"

definition complete_entry :: "string \<Rightarrow> string \<Rightarrow> string" where
  "complete_entry command img = ''['' @ command @ ''] '' @ img @ '' complete.''"

text \<open>\<^verbatim>\<open>scans++\<close> on a 64-bit \<^verbatim>\<open>int\<close>; \<^verbatim>\<open>%\<close> is the remainder of truncated division, \<open>smod\<close>.\<close>

definition increment :: "int \<Rightarrow> int" where
  "increment n = (n + 1 + 2 ^ 63) mod 2 ^ 64 - 2 ^ 63"

text \<open>
  The \<^verbatim>\<open>for clientScanner.Scan()\<close> loop and the code after it. \<open>status\<close>, \<open>errorMessage\<close>
  and \<open>scans\<close> are the three variables declared in front of the loop; they live through
  all iterations. The result is the logger and the scanner as the call leaves them, and
  the error returned (\<open>None\<close> for \<^verbatim>\<open>nil\<close>).
\<close>

fun scan_loop ::
  "string \<Rightarrow> string \<Rightarrow> go_error option \<Rightarrow> line list \<Rightarrow> Logger \<Rightarrow> Status \<Rightarrow>
   clientErrorMessage \<Rightarrow> int \<Rightarrow> Logger \<times> Scanner \<times> go_error option" where
  "scan_loop img command fin [] logger status errorMessage scans =
     (case fin of
        Some e \<Rightarrow> (logger, \<lparr>pending = [], failure = fin\<rparr>, Some (Wrapf ''scanner: '' e))
      | None \<Rightarrow>
          (logger @ [complete_entry command img], \<lparr>pending = [], failure = fin\<rparr>, None))"
| "scan_loop img command fin (l # rest) logger status errorMessage scans =
     (case Unmarshal_Status l status of
        Inl e \<Rightarrow> (logger, \<lparr>pending = rest, failure = fin\<rparr>, Some (Wrapf ''unmarshal status: '' e))
      | Inr status' \<Rightarrow>
          (case Unmarshal_clientErrorMessage l errorMessage of
             Inl e \<Rightarrow>
               (logger, \<lparr>pending = rest, failure = fin\<rparr>, Some (Wrapf ''unmarshal error: '' e))
           | Inr errorMessage' \<Rightarrow>
               if Error errorMessage' \<noteq> '''' then
                 (logger, \<lparr>pending = rest, failure = fin\<rparr>,
                  Some (Errorf (''returned error: '' @ Error errorMessage')))
               else
                 let logger' =
                       (if scans smod 25 = 0
                        then logger @ [progress_entry command img (GetMessage status')]
                        else logger)
                 in scan_loop img command fin rest logger' status' errorMessage'
                      (increment scans)))"

text \<open>The zero values of \<^verbatim>\<open>var status Status\<close> and \<^verbatim>\<open>var errorMessage clientErrorMessage\<close>.\<close>

definition zero_Status :: Status where
  "zero_Status = \<lparr>Message = '''', ID = '''', ProgressDetail = \<lparr>Current = 0, Total = 0\<rparr>\<rparr>"

definition zero_clientErrorMessage :: clientErrorMessage where
  "zero_clientErrorMessage = \<lparr>Error = ''''\<rparr>"

definition waitForScannerComplete ::
  "Logger \<Rightarrow> Scanner \<Rightarrow> string \<Rightarrow> string \<Rightarrow> Logger \<times> Scanner \<times> go_error option" where
  "waitForScannerComplete logger clientScanner img command =
     scan_loop img command (failure clientScanner) (pending clientScanner) logger
       zero_Status zero_clientErrorMessage 0"

section \<open>Notions used to state the properties\<close>

text \<open>
  The string put together from the four projections, in the words of the specification:
  host, repository, tag and digest joined with the separators \<^verbatim>\<open>/\<close>, \<^verbatim>\<open>:\<close> and \<^verbatim>\<open>@\<close> of
  the format \<^verbatim>\<open>[host/]repository[:tag][@digest]\<close>, an empty component being left out
  together with its separator.
\<close>

definition reassemble :: "string \<Rightarrow> string \<Rightarrow> string \<Rightarrow> string \<Rightarrow> string" where
  "reassemble host repository tag digest =
     (if host = '''' then '''' else host @ ''/'') @ repository @
     (if tag = '''' then '''' else '':'' @ tag) @
     (if digest = '''' then '''' else ''@'' @ digest)"

text \<open>
  A line decodes when both calls of \<^verbatim>\<open>json.Unmarshal\<close> succeed on it; its error text is
  what it stores in the \<^verbatim>\<open>error\<close> field. A clean line decodes and has no error text.
\<close>

definition decodes :: "line \<Rightarrow> bool" where
  "decodes l =
     (case Unmarshal_Status l zero_Status of
        Inl e \<Rightarrow> False
      | Inr s \<Rightarrow>
          (case Unmarshal_clientErrorMessage l zero_clientErrorMessage of
             Inl e \<Rightarrow> False
           | Inr m \<Rightarrow> True))"

definition error_text :: "line \<Rightarrow> string" where
  "error_text l =
     (case Unmarshal_clientErrorMessage l zero_clientErrorMessage of
        Inl e \<Rightarrow> ''''
      | Inr m \<Rightarrow> Error m)"

definition clean :: "line \<Rightarrow> bool" where
  "clean l = (decodes l \<and> error_text l = '''')"

text \<open>The variable \<open>status\<close> after the given lines have been decoded into it in turn.\<close>

fun status_after :: "Status \<Rightarrow> line list \<Rightarrow> Status" where
  "status_after s [] = s"
| "status_after s (l # ls) =
     status_after (case Unmarshal_Status l s of Inl e \<Rightarrow> s | Inr s' \<Rightarrow> s') ls"

text \<open>
  The progress entries written while the given lines are consumed, from the status \<open>s\<close>
  and the count \<open>n\<close>: one for each line met at a count that is a multiple of 25.
\<close>

fun progress_entries :: "string \<Rightarrow> string \<Rightarrow> Status \<Rightarrow> int \<Rightarrow> line list \<Rightarrow> string list" where
  "progress_entries command img s n [] = []"
| "progress_entries command img s n (l # ls) =
     (if n smod 25 = 0 then [progress_entry command img (GetMessage (status_after s [l]))]
      else []) @
     progress_entries command img (status_after s [l]) (increment n) ls"

section \<open>Properties of the status message\<close>

text \<open>
  Claim C10. For two Status values that differ only in the ID field GetMessage returns the
  same string: the result is fixed by whether Message contains "Pulling from" or
  "The push refers to" and by the ProgressDetail values, and the ID plays no part.
\<close>

theorem GetMessage_ignores_ID:
  "GetMessage (s\<lparr>ID := i\<rparr>) = GetMessage s \<and>
   (((Contains (Message s) ''Pulling from'' \<or> Contains (Message s) ''The push refers to'') =
     (Contains (Message t) ''Pulling from'' \<or> Contains (Message t) ''The push refers to'')) \<and>
    ProgressDetail s = ProgressDetail t \<longrightarrow> GetMessage s = GetMessage t)"
  by (simp add: GetMessage_def)

theorem GetMessage_ignores_ID_witness:
  "GetMessage \<lparr>Message = ''Pulling from library/nginx'', ID = ''latest'',
               ProgressDetail = \<lparr>Current = 0, Total = 0\<rparr>\<rparr> =
   GetMessage \<lparr>Message = ''The push refers to repository [example.com/nginx]'',
               ID = ''5f70bf18a086'', ProgressDetail = \<lparr>Current = 0, Total = 0\<rparr>\<rparr>"
proof -
  have "Contains ''Pulling from library/nginx'' ''Pulling from''"
    by (simp add: Contains_def)
  moreover have "Contains ''The push refers to repository [example.com/nginx]''
                   ''The push refers to''"
    by (simp add: Contains_def)
  ultimately show ?thesis
    using GetMessage_ignores_ID
      [where s = "\<lparr>Message = ''Pulling from library/nginx'', ID = ''latest'',
                    ProgressDetail = \<lparr>Current = 0, Total = 0\<rparr>\<rparr>"
         and i = "''latest''"
         and t = "\<lparr>Message = ''The push refers to repository [example.com/nginx]'',
                    ID = ''5f70bf18a086'', ProgressDetail = \<lparr>Current = 0, Total = 0\<rparr>\<rparr>"]
    by simp
qed

section \<open>Properties of the registry path\<close>

subsection \<open>Splitting at a one-byte separator\<close>

lemma HasPrefix_single: "HasPrefix s [c] = (s \<noteq> [] \<and> hd s = c)"
  by (cases s) auto

lemma Index_single:
  "Index s [c] = (if c \<in> set s then Some (length (takeWhile (\<lambda>x. x \<noteq> c) s)) else None)"
  by (induction s) (auto simp: HasPrefix_single)

lemma Contains_single: "Contains s [c] = (c \<in> set s)"
  by (simp add: Contains_def Index_single)

lemma drop_past_separator:
  "drop (Suc (length (takeWhile P s))) s = tl (dropWhile P s)"
  by (induction s) auto

lemma Split_single:
  "Split s [c] =
     (if c \<in> set s
      then takeWhile (\<lambda>x. x \<noteq> c) s # Split (tl (dropWhile (\<lambda>x. x \<noteq> c) s)) [c]
      else [s])"
  by (subst Split.simps)
     (simp add: Index_single drop_past_separator takeWhile_eq_take [symmetric])

lemma Split_single_after:
  "c \<notin> set a \<Longrightarrow> Split (a @ c # t) [c] = a # Split t [c]"
  by (subst Split_single) (simp add: takeWhile_append dropWhile_append)

lemma Split_single_first:
  "\<exists>rest. Split s [c] = takeWhile (\<lambda>x. x \<noteq> c) s # rest"
proof (cases "c \<in> set s")
  case True
  then show ?thesis by (subst Split_single) simp
next
  case False
  then have "takeWhile (\<lambda>x. x \<noteq> c) s = s"
    by (auto simp: takeWhile_eq_all_conv)
  moreover from False have "Split s [c] = [s]"
    by (subst Split_single) simp
  ultimately show ?thesis by metis
qed

lemma index_at_Split_0: "index_at (Split s [c]) 0 = Return (takeWhile (\<lambda>x. x \<noteq> c) s)"
  using Split_single_first [of s c] by (auto simp: index_at_def)

lemma index_at_Split_1:
  "c \<notin> set a \<Longrightarrow>
   index_at (Split (a @ c # t) [c]) (Suc 0) = Return (takeWhile (\<lambda>x. x \<noteq> c) t)"
  using Split_single_first [of t c] by (auto simp: Split_single_after index_at_def)

subsection \<open>The projections never panic\<close>

lemma index_at_Split_in_range:
  assumes "Contains s [c]"
  shows "\<exists>t. index_at (Split s [c]) (Suc 0) = Return t"
proof -
  from assms have "c \<in> set s" by (simp add: Contains_single)
  then have "Split s [c] =
      takeWhile (\<lambda>x. x \<noteq> c) s # Split (tl (dropWhile (\<lambda>x. x \<noteq> c) s)) [c]"
    by (subst Split_single) simp
  moreover obtain u us where "Split (tl (dropWhile (\<lambda>x. x \<noteq> c) s)) [c] = u # us"
    using Split_single_first by blast
  ultimately show ?thesis by (simp add: index_at_def)
qed

lemma Digest_returns: "\<exists>d. Digest r = Return d"
  using index_at_Split_in_range [of r "CHR ''@''"] by (auto simp: Digest_def)

lemma Tag_returns: "\<exists>t. Tag r = Return t"
  using index_at_Split_in_range [of r "CHR '':''"] by (auto simp: Tag_def)

lemma Host_returns: "\<exists>h. Host r = Return h"
proof -
  obtain t where "Tag r = Return t" using Tag_returns by blast
  then show ?thesis by (simp add: Host_def Let_def index_at_Split_0)
qed

lemma Repository_returns: "\<exists>x. Repository r = Return x"
proof -
  obtain t d h where "Tag r = Return t" "Digest r = Return d" "Host r = Return h"
    using Tag_returns Digest_returns Host_returns by blast
  then show ?thesis by (simp add: Repository_def Let_def)
qed

subsection \<open>Tag and digest\<close>

text \<open>
  Claim C5, as amended. For a registry path that contains no @ and at least one colon,
  Tag returns the text between the first colon and the next one, which is the whole
  remainder only when there is no second colon; for a string that contains @ or no colon,
  Tag returns the empty string.
\<close>

theorem Tag_between_colons:
  "(Contains p ''@'' \<or> \<not> Contains p '':'' \<longrightarrow> Tag p = Return '''') \<and>
   (\<not> Contains p ''@'' \<and> p = a @ '':'' @ t \<and> \<not> Contains a '':'' \<longrightarrow>
      Tag p = Return (takeWhile (\<lambda>c. c \<noteq> CHR '':'') t))"
  by (auto simp: Tag_def index_at_Split_1 Contains_single)

theorem Tag_between_colons_witness:
  "Tag ''app@sha256:deadbeef'' = Return '''' \<and> Tag ''app'' = Return '''' \<and>
   Tag ''docker.io/library/nginx:1.21'' = Return ''1.21'' \<and>
   Tag ''registry.example.com:5000/repo:v1'' = Return ''5000/repo''"
  using Tag_between_colons [of "''app@sha256:deadbeef''"]
    Tag_between_colons [of "''app''"]
    Tag_between_colons [of "''docker.io/library/nginx:1.21''" "''docker.io/library/nginx''" "''1.21''"]
    Tag_between_colons [of "''registry.example.com:5000/repo:v1''"
                           "''registry.example.com''" "''5000/repo:v1''"]
  by (simp add: Contains_single)

text \<open>
  The claim as it was written, with the entire remainder after the first colon as the tag,
  fails where a registry port and a tag are both given.
\<close>

theorem Tag_whole_remainder_counterexample:
  "\<not> Contains ''registry.example.com:5000/repo:v1'' ''@'' \<and>
   ''registry.example.com:5000/repo:v1'' = ''registry.example.com'' @ '':'' @ ''5000/repo:v1'' \<and>
   \<not> Contains ''registry.example.com'' '':'' \<and>
   Tag ''registry.example.com:5000/repo:v1'' = Return ''5000/repo'' \<and>
   Tag ''registry.example.com:5000/repo:v1'' \<noteq> Return ''5000/repo:v1''"
  by (simp add: Tag_def Contains_single Split_single index_at_def)

text \<open>
  Claim C8, as amended. For a registry path that contains both an @ and a colon, Digest
  returns the text between the first @ and the next one, which is the whole text after
  the @ when the path has only one, and Tag returns the empty string.
\<close>

theorem Digest_precedence:
  "Contains p '':'' \<and> p = a @ ''@'' @ d \<and> \<not> Contains a ''@'' \<longrightarrow>
     Digest p = Return (takeWhile (\<lambda>c. c \<noteq> CHR ''@'') d) \<and> Tag p = Return ''''"
  by (auto simp: Digest_def Tag_def index_at_Split_1 Contains_single)

theorem Digest_precedence_witness:
  "Digest ''myregistry.internal/app:v2@sha256:deadbeef'' = Return ''sha256:deadbeef'' \<and>
   Tag ''myregistry.internal/app:v2@sha256:deadbeef'' = Return ''''"
  using Digest_precedence [of "''myregistry.internal/app:v2@sha256:deadbeef''"
                              "''myregistry.internal/app:v2''" "''sha256:deadbeef''"]
  by (simp add: Contains_single)

text \<open>
  With a second @ in the path the digest returned is neither the text after the first @
  nor the text after the last one.
\<close>

theorem Digest_second_at_counterexample:
  "Contains ''app:v1@sha256:abc@sha256:def'' ''@'' \<and>
   Contains ''app:v1@sha256:abc@sha256:def'' '':'' \<and>
   ''app:v1@sha256:abc@sha256:def'' = ''app:v1'' @ ''@'' @ ''sha256:abc@sha256:def'' \<and>
   \<not> Contains ''app:v1'' ''@'' \<and>
   Digest ''app:v1@sha256:abc@sha256:def'' = Return ''sha256:abc'' \<and>
   Digest ''app:v1@sha256:abc@sha256:def'' \<noteq> Return ''sha256:abc@sha256:def'' \<and>
   Digest ''app:v1@sha256:abc@sha256:def'' \<noteq> Return ''sha256:def''"
  by (simp add: Digest_def Contains_single Split_single index_at_def)

subsection \<open>Host and repository\<close>

text \<open>
  Claim C3. Host returns the first segment exactly when that segment, the tag suffix taken
  off, contains a dot, and the empty string when the first segment contains no dot, also
  when a later segment contains one. The source tests the whole string for the dot: for
  \<^verbatim>\<open>library/my.app\<close>, whose first segment has no dot, it returns \<^verbatim>\<open>library\<close>.
\<close>

theorem Host_dot_in_later_segment:
  "Split ''library/my.app'' ''/'' = [''library'', ''my.app''] \<and>
   \<not> Contains ''library'' ''.'' \<and>
   Tag ''library/my.app'' = Return '''' \<and>
   Host ''library/my.app'' = Return ''library''"
  by (simp add: Host_def Tag_def Contains_single Split_single index_at_def)

theorem Host_dot_in_later_segment_witness:
  "Host ''library/my.app'' \<noteq> Return ''''"
  using Host_dot_in_later_segment by simp

text \<open>
  Claim C4. Repository is the input without the tag suffix, the digest suffix and the host
  prefix, leading slashes trimmed, and the rest of the string unchanged. The source takes
  out every occurrence of the host, not only the prefix: the repository
  \<^verbatim>\<open>mirror/example.com/app\<close> on the host \<^verbatim>\<open>example.com\<close> comes back as \<^verbatim>\<open>mirror//app\<close>.
\<close>

theorem Repository_removes_inner_host:
  "Host ''example.com/mirror/example.com/app:v1'' = Return ''example.com'' \<and>
   Tag ''example.com/mirror/example.com/app:v1'' = Return ''v1'' \<and>
   Digest ''example.com/mirror/example.com/app:v1'' = Return '''' \<and>
   Repository ''example.com/mirror/example.com/app:v1'' = Return ''mirror//app''"
  by code_simp

theorem Repository_removes_inner_host_witness:
  "Repository ''example.com/mirror/example.com/app:v1'' \<noteq> Return ''mirror/example.com/app''"
  using Repository_removes_inner_host by simp

text \<open>
  Claim C9. Putting the four projections of a well-formed path together again gives a
  string with the same four projections. The path made of the repository \<^verbatim>\<open>nginx\<close>, the
  tag \<^verbatim>\<open>1.21\<close> and the digest \<^verbatim>\<open>sha256:abcd\<close> has neither host nor port. The source
  returns the whole path as its host, and the string put together from the projections
  has another digest.
\<close>

theorem reassembled_path_differs:
  "reassemble '''' ''nginx'' ''1.21'' ''sha256:abcd'' = ''nginx:1.21@sha256:abcd'' \<and>
   Host ''nginx:1.21@sha256:abcd'' = Return ''nginx:1.21@sha256:abcd'' \<and>
   Repository ''nginx:1.21@sha256:abcd'' = Return ''nginx:1.21'' \<and>
   Tag ''nginx:1.21@sha256:abcd'' = Return '''' \<and>
   Digest ''nginx:1.21@sha256:abcd'' = Return ''sha256:abcd'' \<and>
   reassemble ''nginx:1.21@sha256:abcd'' ''nginx:1.21'' '''' ''sha256:abcd'' =
     ''nginx:1.21@sha256:abcd/nginx:1.21@sha256:abcd'' \<and>
   Digest ''nginx:1.21@sha256:abcd/nginx:1.21@sha256:abcd'' = Return ''sha256:abcd/nginx:1.21''"
  by code_simp

theorem reassembled_path_differs_witness:
  "Digest (reassemble ''nginx:1.21@sha256:abcd'' ''nginx:1.21'' '''' ''sha256:abcd'') \<noteq>
   Digest ''nginx:1.21@sha256:abcd''"
  using reassembled_path_differs by simp

subsection \<open>Paths put together from plain components\<close>

lemma HasPrefix_append: "HasPrefix (p @ s) p"
  by (induction p) auto

lemma HasPrefix_subset: "HasPrefix s p \<Longrightarrow> set p \<subseteq> set s"
  by (induction s p rule: HasPrefix.induct) auto

lemma Index_subset: "Index s sub = Some i \<Longrightarrow> set sub \<subseteq> set s"
proof (induction s arbitrary: i)
  case Nil
  then show ?case by (simp split: if_splits)
next
  case (Cons c s)
  show ?case
  proof (cases "HasPrefix (c # s) sub")
    case True
    then show ?thesis by (rule HasPrefix_subset)
  next
    case False
    with Cons.prems obtain j where "Index s sub = Some j" by auto
    then have "set sub \<subseteq> set s" by (rule Cons.IH)
    then show ?thesis by auto
  qed
qed

lemma Index_absent:
  assumes "x \<in> set sub" and "x \<notin> set s"
  shows "Index s sub = None"
proof (cases "Index s sub")
  case None
  then show ?thesis .
next
  case (Some i)
  then have "set sub \<subseteq> set s" by (rule Index_subset)
  with assms show ?thesis by auto
qed

lemma Index_at_suffix: "c \<notin> set a \<Longrightarrow> Index (a @ c # t) (c # t) = Some (length a)"
proof (induction a)
  case Nil
  show ?case by (simp add: HasPrefix_append [of "c # t" "[]", simplified])
next
  case (Cons x a)
  then show ?case by auto
qed

lemma ReplaceAll_absent:
  assumes "Index s old = None"
  shows "ReplaceAll s old new = s"
proof -
  from assms have "old \<noteq> []" by (cases s) auto
  with assms show ?thesis by (subst ReplaceAll.simps) simp
qed

lemma ReplaceAll_suffix:
  assumes "c \<notin> set a"
  shows "ReplaceAll (a @ c # t) (c # t) '''' = a"
proof -
  have "ReplaceAll [] (c # t) '''' = []"
    by (subst ReplaceAll.simps) simp
  with assms show ?thesis
    by (subst ReplaceAll.simps) (simp add: Index_at_suffix)
qed

lemma ReplaceAll_prefix:
  assumes "x \<in> set h" and "x \<notin> set rest"
  shows "ReplaceAll (h @ rest) h '''' = rest"
proof -
  from assms(1) have "h \<noteq> []" by auto
  then obtain c h' where h: "h = c # h'" by (cases h) auto
  have "HasPrefix (h @ rest) h" by (rule HasPrefix_append)
  with h have first: "Index (h @ rest) h = Some 0" by simp
  have "Index rest h = None" using assms by (rule Index_absent)
  then have "ReplaceAll rest h '''' = rest" by (rule ReplaceAll_absent)
  with first \<open>h \<noteq> []\<close> show ?thesis
    by (subst ReplaceAll.simps) simp
qed

text \<open>
  On a path put together from a host with a dot (or none), a repository without dots, and
  a tag or a digest without dots in the digest, the four projections give the components
  back, so that putting them together again gives the path itself.
\<close>

lemma projections_of_plain_path:
  assumes host: "h = '''' \<or> (CHR ''.'' \<in> set h \<and> set h \<inter> {CHR ''/'', CHR '':'', CHR ''@''} = {})"
    and repository: "repo \<noteq> ''''" "hd repo \<noteq> CHR ''/''"
      "set repo \<inter> {CHR '':'', CHR ''@'', CHR ''.''} = {}"
    and tag: "set t \<inter> {CHR '':'', CHR ''@''} = {}"
    and digest: "set d \<inter> {CHR ''@'', CHR ''.''} = {}"
    and one: "t = '''' \<or> d = ''''"
  shows "Host (reassemble h repo t d) = Return h \<and>
         Repository (reassemble h repo t d) = Return repo \<and>
         Tag (reassemble h repo t d) = Return t \<and>
         Digest (reassemble h repo t d) = Return d"
proof -
  define base where "base = (if h = '''' then '''' else h @ ''/'') @ repo"
  have base_colon: "CHR '':'' \<notin> set base" and base_at: "CHR ''@'' \<notin> set base"
    using host repository by (auto simp: base_def)
  have base_dot: "CHR ''.'' \<in> set base \<longleftrightarrow> h \<noteq> ''''"
    using host repository by (auto simp: base_def)
  have first: "takeWhile (\<lambda>c. c \<noteq> CHR ''/'') (base @ rest) = h" if "h \<noteq> ''''" for rest
    using that host by (auto simp: base_def takeWhile_append)
  have strip_host: "TrimLeft (if h = '''' then base else ReplaceAll base h '''') ''/'' = repo"
  proof (cases "h = ''''")
    case True
    with repository show ?thesis
      by (cases repo) (auto simp: base_def TrimLeft_def)
  next
    case False
    with host have "CHR ''.'' \<in> set h" by simp
    moreover from repository have "CHR ''.'' \<notin> set (''/'' @ repo)" by auto
    ultimately have "ReplaceAll (h @ ''/'' @ repo) h '''' = ''/'' @ repo"
      by (rule ReplaceAll_prefix)
    with False repository show ?thesis
      by (cases repo) (auto simp: base_def TrimLeft_def)
  qed
  show ?thesis
  proof (cases "d = ''''")
    case True
    note no_digest = True
    show ?thesis
    proof (cases "t = ''''")
      case True
      with no_digest have p: "reassemble h repo t d = base"
        by (simp add: reassemble_def base_def)
      have tg: "Tag base = Return ''''" and dg: "Digest base = Return ''''"
        using base_colon base_at by (simp_all add: Tag_def Digest_def Contains_single)
      have hs: "Host base = Return h"
        using first [of "''''"] base_dot
        by (simp add: Host_def tg Contains_single index_at_Split_0)
      have "Repository base = Return repo"
        using strip_host by (auto simp: Repository_def tg dg hs)
      with p tg dg hs True no_digest show ?thesis by simp
    next
      case False
      with no_digest have p: "reassemble h repo t d = base @ CHR '':'' # t"
        by (simp add: reassemble_def base_def)
      have no_at: "CHR ''@'' \<notin> set (base @ CHR '':'' # t)"
        using base_at tag by auto
      have tg: "Tag (base @ CHR '':'' # t) = Return t"
      proof -
        from tag have "takeWhile (\<lambda>c. c \<noteq> CHR '':'') t = t"
          by (auto simp: takeWhile_eq_all_conv)
        with no_at base_colon show ?thesis
          by (simp add: Tag_def Contains_single index_at_Split_1)
      qed
      have dg: "Digest (base @ CHR '':'' # t) = Return ''''"
        using no_at by (simp add: Digest_def Contains_single)
      have stripped: "ReplaceAll (base @ CHR '':'' # t) (CHR '':'' # t) '''' = base"
        using base_colon by (simp add: ReplaceAll_suffix)
      have hs: "Host (base @ CHR '':'' # t) = Return h"
        using first [of "CHR '':'' # t"] base_dot False
        by (simp add: Host_def tg stripped Contains_single index_at_Split_0)
      have "Repository (base @ CHR '':'' # t) = Return repo"
        using strip_host False by (auto simp: Repository_def tg dg hs stripped)
      with p tg dg hs no_digest show ?thesis by simp
    qed
  next
    case False
    with one have no_tag: "t = ''''" by simp
    with False have p: "reassemble h repo t d = base @ CHR ''@'' # d"
      by (simp add: reassemble_def base_def)
    have tg: "Tag (base @ CHR ''@'' # d) = Return ''''"
      by (simp add: Tag_def Contains_single)
    have dg: "Digest (base @ CHR ''@'' # d) = Return d"
    proof -
      from digest have "takeWhile (\<lambda>c. c \<noteq> CHR ''@'') d = d"
        by (auto simp: takeWhile_eq_all_conv)
      with base_at show ?thesis
        by (simp add: Digest_def Contains_single index_at_Split_1)
    qed
    have dot: "CHR ''.'' \<in> set (base @ CHR ''@'' # d) \<longleftrightarrow> h \<noteq> ''''"
      using base_dot digest by auto
    have hs: "Host (base @ CHR ''@'' # d) = Return h"
      using first [of "CHR ''@'' # d"] dot
      by (simp add: Host_def tg Contains_single index_at_Split_0 del: set_append)
    have stripped: "ReplaceAll (base @ CHR ''@'' # d) (CHR ''@'' # d) '''' = base"
      using base_at by (simp add: ReplaceAll_suffix)
    have "Repository (base @ CHR ''@'' # d) = Return repo"
      using strip_host False by (auto simp: Repository_def tg dg hs stripped)
    with p tg dg hs no_tag show ?thesis by simp
  qed
qed

section \<open>Properties of the stream consumer\<close>

subsection \<open>Whether a line decodes does not depend on the struct it is decoded into\<close>

lemma store_string_error: "store_string v a = Inl e \<Longrightarrow> store_string v b = Inl e"
  by (cases v) auto

lemma store_int_error: "store_int v a = Inl e \<Longrightarrow> store_int v b = Inl e"
  by (cases v) (auto split: if_splits)

lemma store_string_success: "store_string v a = Inr x \<Longrightarrow> \<exists>y. store_string v b = Inr y"
  by (cases v) auto

lemma store_int_success: "store_int v a = Inr n \<Longrightarrow> \<exists>n'. store_int v b = Inr n'"
  by (cases v) (auto split: if_splits)

lemma members_ProgressDetail_error:
  "members_ProgressDetail ms p = Inl e \<Longrightarrow> members_ProgressDetail ms q = Inl e"
proof (induction ms arbitrary: p q)
  case Nil
  then show ?case by simp
next
  case (Cons m ms)
  obtain key v where m: "m = (key, v)" by (cases m)
  show ?case
  proof (cases "names key ''current''")
    case True
    show ?thesis
    proof (cases "store_int v (Current p)")
      case (Inl e')
      with Cons.prems m True have "e' = e" by simp
      with Inl have "store_int v (Current p) = Inl e" by simp
      then have "store_int v (Current q) = Inl e" by (rule store_int_error)
      with m True show ?thesis by simp
    next
      case (Inr n)
      then obtain n' where n': "store_int v (Current q) = Inr n'"
        using store_int_success [of v "Current p" n "Current q"] by blast
      from Cons.prems m True Inr
      have "members_ProgressDetail ms (p\<lparr>Current := n\<rparr>) = Inl e" by simp
      then have "members_ProgressDetail ms (q\<lparr>Current := n'\<rparr>) = Inl e"
        by (rule Cons.IH)
      with m True n' show ?thesis by simp
    qed
  next
    case False
    note not_current = False
    show ?thesis
    proof (cases "names key ''total''")
      case True
      show ?thesis
      proof (cases "store_int v (Total p)")
        case (Inl e')
        with Cons.prems m True not_current have "e' = e" by simp
        with Inl have "store_int v (Total p) = Inl e" by simp
        then have "store_int v (Total q) = Inl e" by (rule store_int_error)
        with m True not_current show ?thesis by simp
      next
        case (Inr n)
        then obtain n' where n': "store_int v (Total q) = Inr n'"
          using store_int_success [of v "Total p" n "Total q"] by blast
        from Cons.prems m True not_current Inr
        have "members_ProgressDetail ms (p\<lparr>Total := n\<rparr>) = Inl e" by simp
        then have "members_ProgressDetail ms (q\<lparr>Total := n'\<rparr>) = Inl e"
          by (rule Cons.IH)
        with m True not_current n' show ?thesis by simp
      qed
    next
      case False
      with Cons.prems m not_current have "members_ProgressDetail ms p = Inl e" by simp
      then have "members_ProgressDetail ms q = Inl e" by (rule Cons.IH)
      with m False not_current show ?thesis by simp
    qed
  qed
qed

lemma store_ProgressDetail_error:
  "store_ProgressDetail v p = Inl e \<Longrightarrow> store_ProgressDetail v q = Inl e"
  by (cases v) (auto elim: members_ProgressDetail_error)

lemma store_ProgressDetail_success:
  assumes "store_ProgressDetail v p = Inr x"
  shows "\<exists>y. store_ProgressDetail v q = Inr y"
proof (cases "store_ProgressDetail v q")
  case (Inl e)
  then have "store_ProgressDetail v p = Inl e" by (rule store_ProgressDetail_error)
  with assms show ?thesis by simp
next
  case (Inr y)
  then show ?thesis by blast
qed

lemma members_Status_error:
  "members_Status ms s = Inl e \<Longrightarrow> members_Status ms t = Inl e"
proof (induction ms arbitrary: s t)
  case Nil
  then show ?case by simp
next
  case (Cons m ms)
  obtain key v where m: "m = (key, v)" by (cases m)
  consider (status) "names key ''status''"
    | (id) "\<not> names key ''status''" "names key ''id''"
    | (detail) "\<not> names key ''status''" "\<not> names key ''id''" "names key ''progressDetail''"
    | (other) "\<not> names key ''status''" "\<not> names key ''id''" "\<not> names key ''progressDetail''"
    by blast
  then show ?case
  proof cases
    case status
    show ?thesis
    proof (cases "store_string v (Message s)")
      case (Inl e')
      with Cons.prems m status have "e' = e" by simp
      with Inl have "store_string v (Message s) = Inl e" by simp
      then have "store_string v (Message t) = Inl e" by (rule store_string_error)
      with m status show ?thesis by simp
    next
      case (Inr x)
      then obtain y where y: "store_string v (Message t) = Inr y"
        using store_string_success [of v "Message s" x "Message t"] by blast
      from Cons.prems m status Inr have "members_Status ms (s\<lparr>Message := x\<rparr>) = Inl e" by simp
      then have "members_Status ms (t\<lparr>Message := y\<rparr>) = Inl e" by (rule Cons.IH)
      with m status y show ?thesis by simp
    qed
  next
    case id
    show ?thesis
    proof (cases "store_string v (ID s)")
      case (Inl e')
      with Cons.prems m id have "e' = e" by simp
      with Inl have "store_string v (ID s) = Inl e" by simp
      then have "store_string v (ID t) = Inl e" by (rule store_string_error)
      with m id show ?thesis by simp
    next
      case (Inr x)
      then obtain y where y: "store_string v (ID t) = Inr y"
        using store_string_success [of v "ID s" x "ID t"] by blast
      from Cons.prems m id Inr have "members_Status ms (s\<lparr>ID := x\<rparr>) = Inl e" by simp
      then have "members_Status ms (t\<lparr>ID := y\<rparr>) = Inl e" by (rule Cons.IH)
      with m id y show ?thesis by simp
    qed
  next
    case detail
    show ?thesis
    proof (cases "store_ProgressDetail v (ProgressDetail s)")
      case (Inl e')
      with Cons.prems m detail have "e' = e" by simp
      with Inl have "store_ProgressDetail v (ProgressDetail s) = Inl e" by simp
      then have "store_ProgressDetail v (ProgressDetail t) = Inl e" by (rule store_ProgressDetail_error)
      with m detail show ?thesis by simp
    next
      case (Inr x)
      then obtain y where y: "store_ProgressDetail v (ProgressDetail t) = Inr y"
        using store_ProgressDetail_success [of v "ProgressDetail s" x "ProgressDetail t"]
        by blast
      from Cons.prems m detail Inr
      have "members_Status ms (s\<lparr>ProgressDetail := x\<rparr>) = Inl e" by simp
      then have "members_Status ms (t\<lparr>ProgressDetail := y\<rparr>) = Inl e" by (rule Cons.IH)
      with m detail y show ?thesis by simp
    qed
  next
    case other
    with Cons.prems m have "members_Status ms s = Inl e" by simp
    then have "members_Status ms t = Inl e" by (rule Cons.IH)
    with m other show ?thesis by simp
  qed
qed

lemma Unmarshal_Status_error:
  "Unmarshal_Status l s = Inl e \<Longrightarrow> Unmarshal_Status l t = Inl e"
proof (cases l)
  case (Malformed msg)
  assume "Unmarshal_Status l s = Inl e"
  with Malformed show ?thesis by simp
next
  case (Wellformed v)
  assume "Unmarshal_Status l s = Inl e"
  with Wellformed show ?thesis
    by (cases v) (auto elim: members_Status_error)
qed

lemma decodes_Status:
  assumes "decodes l"
  shows "\<exists>s'. Unmarshal_Status l s = Inr s'"
proof (cases "Unmarshal_Status l s")
  case (Inl e)
  then have "Unmarshal_Status l zero_Status = Inl e" by (rule Unmarshal_Status_error)
  with assms show ?thesis by (simp add: decodes_def)
next
  case (Inr s')
  then show ?thesis by blast
qed

lemma decodes_clientErrorMessage:
  assumes "decodes l"
  shows "\<exists>m. Unmarshal_clientErrorMessage l zero_clientErrorMessage = Inr m \<and>
             Error m = error_text l"
  using assms by (auto simp: decodes_def error_text_def split: sum.splits)

lemma clean_clientErrorMessage:
  assumes "clean l"
  shows "Unmarshal_clientErrorMessage l zero_clientErrorMessage = Inr zero_clientErrorMessage"
proof -
  from assms obtain m
    where m: "Unmarshal_clientErrorMessage l zero_clientErrorMessage = Inr m" "Error m = ''''"
    using decodes_clientErrorMessage [of l] by (auto simp: clean_def)
  from m(2) have "m = zero_clientErrorMessage"
    by (cases m) (simp add: zero_clientErrorMessage_def)
  with m(1) show ?thesis by simp
qed

subsection \<open>The loop over clean lines\<close>

lemma status_after_append: "status_after s (xs @ ys) = status_after (status_after s xs) ys"
  by (induction xs arbitrary: s) auto

lemma progress_entries_append:
  "progress_entries command img s n (xs @ ys) =
     progress_entries command img s n xs @
     progress_entries command img (status_after s xs) ((increment ^^ length xs) n) ys"
  by (induction xs arbitrary: s n) (auto simp: funpow_swap1)

lemma scan_loop_clean:
  "\<forall>l\<in>set pre. clean l \<Longrightarrow>
   scan_loop img command fin (pre @ rest) logger s zero_clientErrorMessage n =
   scan_loop img command fin rest (logger @ progress_entries command img s n pre)
     (status_after s pre) zero_clientErrorMessage ((increment ^^ length pre) n)"
proof (induction pre arbitrary: logger s n)
  case Nil
  then show ?case by simp
next
  case (Cons l pre)
  from Cons.prems have l: "clean l" and pre: "\<forall>l\<in>set pre. clean l" by simp_all
  from l obtain s' where s': "Unmarshal_Status l s = Inr s'"
    using decodes_Status [of l s] by (auto simp: clean_def)
  have m: "Unmarshal_clientErrorMessage l zero_clientErrorMessage = Inr zero_clientErrorMessage"
    using l by (rule clean_clientErrorMessage)
  have zero: "Error zero_clientErrorMessage = ''''"
    by (simp add: zero_clientErrorMessage_def)
  show ?case
    using Cons.IH [OF pre] s' m zero by (simp add: funpow_swap1 Let_def)
qed

lemma progress_entry_not_complete: "progress_entry command img msg \<noteq> complete_entry c i"
proof
  assume "progress_entry command img msg = complete_entry c i"
  then have "last (progress_entry command img msg) = last (complete_entry c i)" by simp
  then show False by (simp add: progress_entry_def complete_entry_def)
qed

lemma complete_not_in_progress_entries:
  "complete_entry c i \<notin> set (progress_entries command img s n ls)"
proof (induction ls arbitrary: s n)
  case Nil
  show ?case by simp
next
  case (Cons l ls)
  have "complete_entry c i \<noteq> progress_entry command img (GetMessage (status_after s [l]))"
    by (rule not_sym) (rule progress_entry_not_complete)
  with Cons.IH show ?case
    by (simp del: status_after.simps)
qed

subsection \<open>The remote error\<close>

text \<open>
  Claim C2. When the lines before line k are consumed without a stop and line k decodes
  with an error field that is not empty, the consumer stops at line k: the lines after
  it stay in the scanner, no completion entry is written (the logger gains only the
  progress entries of the lines before k), and the error returned has the text
  "returned error: " followed by the remote error text as it came.
\<close>

theorem remote_error_aborts:
  assumes "\<forall>l\<in>set pre. clean l" and "decodes k" and "error_text k \<noteq> ''''"
  shows "waitForScannerComplete logger \<lparr>pending = pre @ k # post, failure = fin\<rparr> img command =
           (logger @ progress_entries command img zero_Status 0 pre,
            \<lparr>pending = post, failure = fin\<rparr>,
            Some (Errorf (''returned error: '' @ error_text k))) \<and>
         complete_entry command img \<notin> set (progress_entries command img zero_Status 0 pre)"
proof -
  obtain s' where s': "Unmarshal_Status k (status_after zero_Status pre) = Inr s'"
    using decodes_Status [OF assms(2)] by blast
  obtain m where m: "Unmarshal_clientErrorMessage k zero_clientErrorMessage = Inr m"
      "Error m = error_text k"
    using decodes_clientErrorMessage [OF assms(2)] by blast
  have "waitForScannerComplete logger \<lparr>pending = pre @ k # post, failure = fin\<rparr> img command =
        scan_loop img command fin (k # post)
          (logger @ progress_entries command img zero_Status 0 pre)
          (status_after zero_Status pre) zero_clientErrorMessage ((increment ^^ length pre) 0)"
    using scan_loop_clean [OF assms(1)] by (simp add: waitForScannerComplete_def)
  also have "\<dots> = (logger @ progress_entries command img zero_Status 0 pre,
                   \<lparr>pending = post, failure = fin\<rparr>,
                   Some (Errorf (''returned error: '' @ error_text k)))"
    using s' m assms(3) by simp
  finally show ?thesis
    by (simp add: complete_not_in_progress_entries)
qed

theorem remote_error_aborts_witness:
  "waitForScannerComplete []
     \<lparr>pending =
        [Wellformed (JObject [(''status'', JString ''Pulling from library/nginx''),
                              (''id'', JString ''latest'')]),
         Wellformed (JObject [(''status'', JString ''Pulling fs layer''),
                              (''progressDetail'', JObject []), (''id'', JString ''abc'')]),
         Wellformed (JObject [(''error'', JString ''manifest unknown'')]),
         Wellformed (JObject [(''status'', JString ''Pull complete'')])],
      failure = None\<rparr> ''nginx'' ''pull'' =
   ([''[pull] nginx (Started)''],
    \<lparr>pending = [Wellformed (JObject [(''status'', JString ''Pull complete'')])],
       failure = None\<rparr>,
    Some (Errorf ''returned error: manifest unknown''))"
proof -
  let ?a = "Wellformed (JObject [(''status'', JString ''Pulling from library/nginx''),
                                 (''id'', JString ''latest'')])"
  let ?b = "Wellformed (JObject [(''status'', JString ''Pulling fs layer''),
                                 (''progressDetail'', JObject []), (''id'', JString ''abc'')])"
  let ?k = "Wellformed (JObject [(''error'', JString ''manifest unknown'')])"
  have pre: "\<forall>l\<in>set [?a, ?b]. clean l" by code_simp
  have k: "decodes ?k" by code_simp
  have remote: "error_text ?k = ''manifest unknown''" by code_simp
  have entries: "progress_entries ''pull'' ''nginx'' zero_Status 0 [?a, ?b] =
                   [''[pull] nginx (Started)'']"
    by code_simp
  from remote have "error_text ?k \<noteq> ''''" by simp
  from remote_error_aborts [OF pre k this, of "[]" "[Wellformed (JObject [(''status'', JString ''Pull complete'')])]"
      None "''nginx''" "''pull''"]
  show ?thesis
    by (simp only: remote entries append.simps)
qed

subsection \<open>Lines that do not decode\<close>

lemma Unmarshal_Status_success:
  assumes "Unmarshal_Status l s = Inr s'"
  shows "\<exists>t'. Unmarshal_Status l t = Inr t'"
proof (cases "Unmarshal_Status l t")
  case (Inl e)
  then have "Unmarshal_Status l s = Inl e" by (rule Unmarshal_Status_error)
  with assms show ?thesis by simp
next
  case (Inr t')
  then show ?thesis by blast
qed

text \<open>
  Claim C6. When the lines before it are consumed without a stop, a line that is not
  valid JSON or does not fit the expected shape stops the consumer at once, wherever it
  stands in the stream: the lines after it stay in the scanner, no completion entry is
  written, and the error returned wraps the error of the decoder, with the context
  "unmarshal status" when the first decoding fails and "unmarshal error" when the
  second one does.
\<close>

theorem decode_failure_aborts:
  assumes "\<forall>l\<in>set pre. clean l"
  shows "(Unmarshal_Status k zero_Status = Inl e \<longrightarrow>
            waitForScannerComplete logger \<lparr>pending = pre @ k # post, failure = fin\<rparr> img command =
              (logger @ progress_entries command img zero_Status 0 pre,
               \<lparr>pending = post, failure = fin\<rparr>,
               Some (Wrapf ''unmarshal status: '' e))) \<and>
         (Unmarshal_Status k zero_Status = Inr s \<and>
          Unmarshal_clientErrorMessage k zero_clientErrorMessage = Inl e \<longrightarrow>
            waitForScannerComplete logger \<lparr>pending = pre @ k # post, failure = fin\<rparr> img command =
              (logger @ progress_entries command img zero_Status 0 pre,
               \<lparr>pending = post, failure = fin\<rparr>,
               Some (Wrapf ''unmarshal error: '' e))) \<and>
         waitForScannerComplete logger
             \<lparr>pending = pre @ Malformed msg # post, failure = fin\<rparr> img command =
           (logger @ progress_entries command img zero_Status 0 pre,
            \<lparr>pending = post, failure = fin\<rparr>,
            Some (Wrapf ''unmarshal status: '' (SyntaxError msg))) \<and>
         complete_entry command img \<notin> set (progress_entries command img zero_Status 0 pre)"
proof -
  have run: "waitForScannerComplete logger \<lparr>pending = pre @ l # post, failure = fin\<rparr> img command =
        scan_loop img command fin (l # post)
          (logger @ progress_entries command img zero_Status 0 pre)
          (status_after zero_Status pre) zero_clientErrorMessage ((increment ^^ length pre) 0)"
    for l
    using scan_loop_clean [OF assms] by (simp add: waitForScannerComplete_def)
  have first: "waitForScannerComplete logger \<lparr>pending = pre @ k # post, failure = fin\<rparr> img command =
              (logger @ progress_entries command img zero_Status 0 pre,
               \<lparr>pending = post, failure = fin\<rparr>,
               Some (Wrapf ''unmarshal status: '' e))"
    if "Unmarshal_Status k zero_Status = Inl e"
  proof -
    from that have "Unmarshal_Status k (status_after zero_Status pre) = Inl e"
      by (rule Unmarshal_Status_error)
    then show ?thesis by (simp add: run)
  qed
  have second: "waitForScannerComplete logger \<lparr>pending = pre @ k # post, failure = fin\<rparr> img command =
              (logger @ progress_entries command img zero_Status 0 pre,
               \<lparr>pending = post, failure = fin\<rparr>,
               Some (Wrapf ''unmarshal error: '' e))"
    if "Unmarshal_Status k zero_Status = Inr s"
      and "Unmarshal_clientErrorMessage k zero_clientErrorMessage = Inl e"
  proof -
    from that(1) obtain t' where "Unmarshal_Status k (status_after zero_Status pre) = Inr t'"
      using Unmarshal_Status_success by blast
    with that(2) show ?thesis by (simp add: run)
  qed
  have third: "waitForScannerComplete logger
             \<lparr>pending = pre @ Malformed msg # post, failure = fin\<rparr> img command =
           (logger @ progress_entries command img zero_Status 0 pre,
            \<lparr>pending = post, failure = fin\<rparr>,
            Some (Wrapf ''unmarshal status: '' (SyntaxError msg)))"
    by (simp add: run)
  from first second third complete_not_in_progress_entries show ?thesis
    by blast
qed

theorem decode_failure_aborts_witness:
  "waitForScannerComplete []
     \<lparr>pending =
        [Wellformed (JObject [(''status'', JString ''Pulling from library/nginx'')]),
         Wellformed (JArray [JInt 1]),
         Wellformed (JObject [(''status'', JString ''Pull complete'')])],
      failure = None\<rparr> ''nginx'' ''pull'' =
     ([''[pull] nginx (Started)''],
      \<lparr>pending = [Wellformed (JObject [(''status'', JString ''Pull complete'')])],
         failure = None\<rparr>,
      Some (Wrapf ''unmarshal status: '' (UnmarshalTypeError ''array'' ''docker.Status''))) \<and>
   waitForScannerComplete []
     \<lparr>pending =
        [Wellformed (JObject [(''status'', JString ''Pulling from library/nginx'')]),
         Wellformed (JObject [(''error'', JInt 404)]),
         Wellformed (JObject [(''status'', JString ''Pull complete'')])],
      failure = None\<rparr> ''nginx'' ''pull'' =
     ([''[pull] nginx (Started)''],
      \<lparr>pending = [Wellformed (JObject [(''status'', JString ''Pull complete'')])],
         failure = None\<rparr>,
      Some (Wrapf ''unmarshal error: '' (UnmarshalTypeError ''number'' ''string''))) \<and>
   waitForScannerComplete []
     \<lparr>pending =
        [Wellformed (JObject [(''status'', JString ''Pulling from library/nginx'')]),
         Malformed ''unexpected end of JSON input'',
         Wellformed (JObject [(''status'', JString ''Pull complete'')])],
      failure = None\<rparr> ''nginx'' ''pull'' =
     ([''[pull] nginx (Started)''],
      \<lparr>pending = [Wellformed (JObject [(''status'', JString ''Pull complete'')])],
         failure = None\<rparr>,
      Some (Wrapf ''unmarshal status: '' (SyntaxError ''unexpected end of JSON input'')))"
proof -
  let ?a = "Wellformed (JObject [(''status'', JString ''Pulling from library/nginx'')])"
  have pre: "\<forall>l\<in>set [?a]. clean l" by code_simp
  have entries: "progress_entries ''pull'' ''nginx'' zero_Status 0 [?a] =
                   [''[pull] nginx (Started)'']"
    by code_simp
  have array: "Unmarshal_Status (Wellformed (JArray [JInt 1])) zero_Status =
                 Inl (UnmarshalTypeError ''array'' ''docker.Status'')"
    by simp
  have number: "Unmarshal_Status (Wellformed (JObject [(''error'', JInt 404)])) zero_Status =
                  Inr zero_Status \<and>
                Unmarshal_clientErrorMessage (Wellformed (JObject [(''error'', JInt 404)]))
                  zero_clientErrorMessage = Inl (UnmarshalTypeError ''number'' ''string'')"
    by code_simp
  note inst = decode_failure_aborts [OF pre, where logger = "[]"
        and post = "[Wellformed (JObject [(''status'', JString ''Pull complete'')])]"
        and fin = None and img = "''nginx''" and command = "''pull''"]
  have "waitForScannerComplete []
          \<lparr>pending = [?a] @ Wellformed (JArray [JInt 1]) #
             [Wellformed (JObject [(''status'', JString ''Pull complete'')])],
           failure = None\<rparr> ''nginx'' ''pull'' =
        ([] @ progress_entries ''pull'' ''nginx'' zero_Status 0 [?a],
         \<lparr>pending = [Wellformed (JObject [(''status'', JString ''Pull complete'')])],
            failure = None\<rparr>,
         Some (Wrapf ''unmarshal status: '' (UnmarshalTypeError ''array'' ''docker.Status'')))"
    using inst [where k = "Wellformed (JArray [JInt 1])"
        and e = "UnmarshalTypeError ''array'' ''docker.Status''"] array
    by blast
  moreover have "waitForScannerComplete []
          \<lparr>pending = [?a] @ Wellformed (JObject [(''error'', JInt 404)]) #
             [Wellformed (JObject [(''status'', JString ''Pull complete'')])],
           failure = None\<rparr> ''nginx'' ''pull'' =
        ([] @ progress_entries ''pull'' ''nginx'' zero_Status 0 [?a],
         \<lparr>pending = [Wellformed (JObject [(''status'', JString ''Pull complete'')])],
            failure = None\<rparr>,
         Some (Wrapf ''unmarshal error: '' (UnmarshalTypeError ''number'' ''string'')))"
    using inst [where k = "Wellformed (JObject [(''error'', JInt 404)])"
        and e = "UnmarshalTypeError ''number'' ''string''" and s = zero_Status] number
    by blast
  moreover have "waitForScannerComplete []
          \<lparr>pending = [?a] @ Malformed ''unexpected end of JSON input'' #
             [Wellformed (JObject [(''status'', JString ''Pull complete'')])],
           failure = None\<rparr> ''nginx'' ''pull'' =
        ([] @ progress_entries ''pull'' ''nginx'' zero_Status 0 [?a],
         \<lparr>pending = [Wellformed (JObject [(''status'', JString ''Pull complete'')])],
            failure = None\<rparr>,
         Some (Wrapf ''unmarshal status: '' (SyntaxError ''unexpected end of JSON input'')))"
    using inst [where msg = "''unexpected end of JSON input''"]
    by blast
  ultimately show ?thesis
    by (simp only: entries append.simps)
qed

subsection \<open>Progress entries every 25 lines\<close>

lemma increment_small: "- (2 ^ 63) \<le> n \<Longrightarrow> n < 2 ^ 63 - 1 \<Longrightarrow> increment n = n + 1"
  by (simp add: increment_def)

lemma funpow_increment:
  "0 \<le> n \<Longrightarrow> n + int k < 2 ^ 63 \<Longrightarrow> (increment ^^ k) n = n + int k"
proof (induction k)
  case 0
  show ?case by simp
next
  case (Suc k)
  then have "(increment ^^ k) n = n + int k" by simp
  moreover from Suc.prems have "increment (n + int k) = n + int k + 1"
    by (intro increment_small) simp_all
  ultimately show ?case by simp
qed

lemma progress_entries_silent:
  "0 < n \<Longrightarrow> n + int (length ls) \<le> 25 \<Longrightarrow> progress_entries command img s n ls = []"
proof (induction ls arbitrary: s n)
  case Nil
  show ?case by simp
next
  case (Cons l ls)
  from Cons.prems have n: "0 < n" "n < 25" by simp_all
  then have "n smod 25 = n" by (simp add: signed_modulo_int_def)
  with n have quiet: "n smod 25 \<noteq> 0" by simp
  from n have next_n: "increment n = n + 1" by (intro increment_small) simp_all
  from Cons.prems have "progress_entries command img (status_after s [l]) (n + 1) ls = []"
    by (intro Cons.IH) simp_all
  with quiet next_n show ?case by (simp del: status_after.simps)
qed

text \<open>
  Claim C7. Given exactly 26 valid status lines without an error field and then a clean
  end of input, the consumer writes two progress entries, for the lines at the counts 0
  and 25, and then one completion entry, and returns success. The message of a progress
  entry is GetMessage of the status variable as it stands after that line.
\<close>

theorem twenty_six_lines:
  assumes "length ls = 26" and "\<forall>l\<in>set ls. clean l"
  shows "waitForScannerComplete logger \<lparr>pending = ls, failure = None\<rparr> img command =
           (logger @
              [progress_entry command img (GetMessage (status_after zero_Status (take 1 ls))),
               progress_entry command img (GetMessage (status_after zero_Status ls)),
               complete_entry command img],
            \<lparr>pending = [], failure = None\<rparr>,
            None)"
proof -
  from assms(1) obtain first rest where ls: "ls = first # rest" and rest: "length rest = 25"
    by (cases ls) auto
  from rest have "rest \<noteq> []" by auto
  then have split: "rest = butlast rest @ [last rest]" by simp
  define mid where "mid = butlast rest"
  define final where "final = last rest"
  from split have rest_eq: "rest = mid @ [final]" by (simp add: mid_def final_def)
  from rest have mid: "length mid = 24" by (simp add: mid_def)
  define s1 where "s1 = status_after zero_Status [first]"
  have quiet: "progress_entries command img s1 1 mid = []"
    using mid by (intro progress_entries_silent) simp_all
  have count: "(increment ^^ length mid) 1 = 25"
    using mid funpow_increment [of 1 24] by simp
  have one: "increment 0 = 1" by (simp add: increment_def)
  have after_mid: "status_after (status_after s1 mid) [final] = status_after zero_Status ls"
    by (simp add: ls rest_eq s1_def status_after_append)
  have "progress_entries command img s1 1 rest =
          [progress_entry command img (GetMessage (status_after (status_after s1 mid) [final]))]"
    unfolding rest_eq progress_entries_append quiet count
    by (simp del: status_after.simps)
  then have entries: "progress_entries command img zero_Status 0 ls =
          [progress_entry command img (GetMessage (status_after zero_Status (take 1 ls))),
           progress_entry command img (GetMessage (status_after zero_Status ls))]"
    unfolding after_mid by (simp add: ls one s1_def del: status_after.simps)
  have "waitForScannerComplete logger \<lparr>pending = ls, failure = None\<rparr> img command =
        scan_loop img command None []
          (logger @ progress_entries command img zero_Status 0 ls)
          (status_after zero_Status ls) zero_clientErrorMessage ((increment ^^ length ls) 0)"
    using scan_loop_clean [OF assms(2), of img command None "[]" logger zero_Status 0]
    by (simp add: waitForScannerComplete_def)
  then show ?thesis by (simp add: entries)
qed

theorem twenty_six_lines_witness:
  "waitForScannerComplete []
     \<lparr>pending =
        Wellformed (JObject [(''status'', JString ''Pulling from library/nginx''),
                             (''id'', JString ''latest'')]) #
        replicate 25
          (Wellformed (JObject [(''status'', JString ''Downloading''),
                                (''progressDetail'',
                                   JObject [(''current'', JInt 5), (''total'', JInt 10)]),
                                (''id'', JString ''abc'')])),
      failure = None\<rparr> ''nginx'' ''pull'' =
   ([''[pull] nginx (Started)'', ''[pull] nginx (Processing 5B of 10B)'',
     ''[pull] nginx complete.''],
    \<lparr>pending = [], failure = None\<rparr>, None)"
proof -
  let ?first = "Wellformed (JObject [(''status'', JString ''Pulling from library/nginx''),
                                     (''id'', JString ''latest'')])"
  let ?later = "Wellformed (JObject [(''status'', JString ''Downloading''),
                                     (''progressDetail'',
                                        JObject [(''current'', JInt 5), (''total'', JInt 10)]),
                                     (''id'', JString ''abc'')])"
  let ?ls = "?first # replicate 25 ?later"
  have len: "length ?ls = 26" by simp
  have "clean ?first" and "clean ?later" by code_simp+
  then have all: "\<forall>l\<in>set ?ls. clean l" by simp
  have first: "progress_entry ''pull'' ''nginx'' (GetMessage (status_after zero_Status (take 1 ?ls))) =
                 ''[pull] nginx (Started)''"
    by code_simp
  have last: "progress_entry ''pull'' ''nginx'' (GetMessage (status_after zero_Status ?ls)) =
                ''[pull] nginx (Processing 5B of 10B)''"
    by code_simp
  have complete: "complete_entry ''pull'' ''nginx'' = ''[pull] nginx complete.''"
    by code_simp
  from twenty_six_lines [OF len all, of "[]" "''nginx''" "''pull''"] show ?thesis
    by (simp only: first last complete append.simps)
qed

subsection \<open>Fields that a line leaves out\<close>

text \<open>
  Claim C1. The Status decoded from a line has the zero value in every field that the
  line's JSON object leaves out, whatever the earlier lines held, and the message logged
  for a line reflects that line alone. The source decodes every line into the one
  variable declared in front of the loop: after a line that reports 5 of 10 bytes, the
  line at count 25, whose progress detail is empty, is logged as "Processing 5B of 10B",
  while on its own it decodes to a status whose message is "Processing".
\<close>

theorem stale_progress_logged:
  "waitForScannerComplete []
     \<lparr>pending =
        Wellformed (JObject [(''status'', JString ''Downloading''),
                             (''progressDetail'',
                                JObject [(''current'', JInt 5), (''total'', JInt 10)]),
                             (''id'', JString ''abc'')]) #
        replicate 25
          (Wellformed (JObject [(''status'', JString ''Pull complete''),
                                (''progressDetail'', JObject []),
                                (''id'', JString ''abc'')])),
      failure = None\<rparr> ''nginx'' ''pull'' =
     ([''[pull] nginx (Processing 5B of 10B)'', ''[pull] nginx (Processing 5B of 10B)'',
       ''[pull] nginx complete.''],
      \<lparr>pending = [], failure = None\<rparr>, None) \<and>
   Unmarshal_Status
     (Wellformed (JObject [(''status'', JString ''Pull complete''),
                           (''progressDetail'', JObject []),
                           (''id'', JString ''abc'')])) zero_Status =
     Inr \<lparr>Message = ''Pull complete'', ID = ''abc'',
          ProgressDetail = \<lparr>Current = 0, Total = 0\<rparr>\<rparr> \<and>
   GetMessage \<lparr>Message = ''Pull complete'', ID = ''abc'',
               ProgressDetail = \<lparr>Current = 0, Total = 0\<rparr>\<rparr> = ''Processing''"
  by code_simp

end
